theory Spec2Isabelle
  imports Main "HOL-Library.Word" "HOL-Library.Log_Nat"
begin

unbundle bit_operations_syntax

section \<open>The sensor package of roomlogg-go (sensor/sensor.go)\<close>

text \<open>
  The package queries a USB HID sensor hub: it builds a fixed 64-byte request, writes it,
  sleeps, reads a 64-byte response and decodes seven channel slots. The HID library
  (github.com/karalabe/hid) and the device are outside the package; what their calls
  return is a parameter of the model. Log output is not modelled, apart from
  \<^verbatim>\<open>log.Fatalln\<close>, which ends the process.
\<close>

subsection \<open>Go values: bytes, slices, run-time panics\<close>

type_synonym byte = "8 word"

datatype panic = IndexOutOfRange | SliceBoundsOutOfRange | NilDereference

text \<open>
  A Go slice of bytes: \<open>elems\<close> are its \<^verbatim>\<open>len\<close> elements, \<open>spare\<close> the rest of
  the backing array up to \<^verbatim>\<open>cap\<close>. An index expression checks against the length, a
  slice expression against the capacity.
\<close>

record byte_slice =
  elems :: "byte list"
  spare :: "byte list"

definition make_bytes :: "nat \<Rightarrow> byte_slice" where
  "make_bytes n = \<lparr>elems = replicate n 0, spare = []\<rparr>"

definition index :: "byte_slice \<Rightarrow> nat \<Rightarrow> panic + byte" where
  "index s i = (if i < length (elems s) then Inr (elems s ! i) else Inl IndexOutOfRange)"

definition reslice :: "byte_slice \<Rightarrow> nat \<Rightarrow> nat \<Rightarrow> panic + byte_slice" where
  "reslice s lo hi =
     (let arr = elems s @ spare s in
      if lo \<le> hi \<and> hi \<le> length arr
      then Inr \<lparr>elems = take (hi - lo) (drop lo arr), spare = drop hi arr\<rparr>
      else Inl SliceBoundsOutOfRange)"

text \<open>
  \<^verbatim>\<open>binary.BigEndian.Uint16(b)\<close> of the standard library:
  \<^verbatim>\<open>_ = b[1]; return uint16(b[1]) | uint16(b[0])<<8\<close>.
\<close>

definition BigEndian_Uint16 :: "byte_slice \<Rightarrow> panic + 16 word" where
  "BigEndian_Uint16 b =
     (case index b 1 of
        Inl p \<Rightarrow> Inl p
      | Inr b1 \<Rightarrow>
          (case index b 0 of
             Inl p \<Rightarrow> Inl p
           | Inr b0 \<Rightarrow> Inr (ucast b1 OR push_bit 8 (ucast b0))))"

subsection \<open>float32\<close>

text \<open>
  A finite \<^verbatim>\<open>float32\<close> is kept as the rational number it denotes. An
  \<^verbatim>\<open>int16\<close> is kept as the integer it denotes: \<^verbatim>\<open>int16(u)\<close> of a \<^verbatim>\<open>uint16\<close> is
  \<open>sint u\<close>. The conversion \<^verbatim>\<open>float32(x)\<close> of an \<^verbatim>\<open>int16\<close> is exact (16 bits fit
  the 24-bit significand).
  The quotient \<^verbatim>\<open>a / b\<close> of two float32 values is the exact quotient rounded to the
  nearest value with a 24-bit significand, ties to even (IEEE 754 binary32); every
  quotient of a non-zero \<^verbatim>\<open>int16\<close> by 10 has magnitude between \<open>1/10\<close> and \<open>3276.8\<close>,
  inside the normal range of binary32, so neither overflow nor subnormals are modelled.
\<close>

type_synonym float32 = rat

definition round_ne :: "rat \<Rightarrow> int" where
  "round_ne x =
     (let f = \<lfloor>x\<rfloor>; d = x - of_int f in
      if d < 1 / 2 then f
      else if 1 / 2 < d then f + 1
      else if even f then f else f + 1)"

text \<open>\<open>ilog2 x\<close> is \<open>\<lfloor>log\<^sub>2 x\<rfloor>\<close> for a positive rational \<open>x\<close>.\<close>

definition ilog2 :: "rat \<Rightarrow> int" where
  "ilog2 x =
     (let (p, q) = quotient_of x;
          k = int (floorlog 2 (nat p)) - int (floorlog 2 (nat q))
      in if 2 powi k \<le> x then k else k - 1)"

definition f32_round :: "rat \<Rightarrow> float32" where
  "f32_round x =
     (if x = 0 then 0
      else let e = ilog2 \<bar>x\<bar> - 23 in of_int (round_ne (x / 2 powi e)) * 2 powi e)"

definition f32_of_int :: "int \<Rightarrow> float32" where
  "f32_of_int n = of_int n"

definition f32_div :: "float32 \<Rightarrow> float32 \<Rightarrow> float32" where
  "f32_div a b = f32_round (a / b)"

subsection \<open>Decoding the response\<close>

text \<open>
  \<^verbatim>\<open>type Sensor struct { Channel int; Temperature float32; Humidity byte; Absent bool }\<close>.
  A composite literal leaves the fields it does not name at their zero values.
\<close>

record Sensor =
  Channel :: int
  Temperature :: float32
  Humidity :: byte
  Absent :: bool

text \<open>The body of the loop of \<^verbatim>\<open>getSensorDataFromBytes\<close> for channel \<open>c\<close>.\<close>

definition channelSensor :: "byte_slice \<Rightarrow> nat \<Rightarrow> panic + Sensor" where
  "channelSensor response c =
     (let channelDataStart = 1 + c * 3 in
      case index response channelDataStart of
        Inl p \<Rightarrow> Inl p
      | Inr first \<Rightarrow>
          if first \<noteq> 0x7f then
            (case reslice response channelDataStart (channelDataStart + 2) of
               Inl p \<Rightarrow> Inl p
             | Inr b \<Rightarrow>
                 (case BigEndian_Uint16 b of
                    Inl p \<Rightarrow> Inl p
                  | Inr temperatureRaw \<Rightarrow>
                      (let temperatureSigned = sint temperatureRaw;
                           temperature = f32_div (f32_of_int temperatureSigned) 10
                       in case index response (channelDataStart + 2) of
                            Inl p \<Rightarrow> Inl p
                          | Inr humidity \<Rightarrow>
                              Inr \<lparr>Channel = int c, Temperature = temperature,
                                   Humidity = humidity, Absent = False\<rparr>)))
          else Inr \<lparr>Channel = int c, Temperature = 0, Humidity = 0, Absent = True\<rparr>)"

text \<open>
  The loop \<^verbatim>\<open>for c := 0; c < 7; c++\<close>. \<open>sensors\<close> is the slice of seven pointers,
  \<open>None\<close> a nil pointer; \<^verbatim>\<open>sensors[c] = sensor\<close> is in range since \<open>c < 7\<close>.
\<close>

function sensorLoop :: "byte_slice \<Rightarrow> nat \<Rightarrow> Sensor option list \<Rightarrow> panic + Sensor option list" where
  "sensorLoop response c sensors =
     (if c < 7 then
        (case channelSensor response c of
           Inl p \<Rightarrow> Inl p
         | Inr sensor \<Rightarrow> sensorLoop response (c + 1) (sensors[c := Some sensor]))
      else Inr sensors)"
  by pat_completeness auto
termination
  by (relation "measure (\<lambda>(response, c, sensors). 7 - c)") auto

definition getSensorDataFromBytes :: "byte_slice \<Rightarrow> panic + Sensor option list" where
  "getSensorDataFromBytes response = sensorLoop response 0 (replicate 7 None)"

subsection \<open>The request frame\<close>

text \<open>
  \<^verbatim>\<open>b := make([]byte, 64); b[0] = 0x7b; b[1] = 0x03; b[2] = 0x40; b[3] = 0x7d\<close>:
  the four constant indices are below the length 64.
\<close>

definition getTempRequestBytes :: "byte_slice" where
  "getTempRequestBytes =
     (let b = make_bytes 64;
          b = b\<lparr>elems := (elems b)[0 := 0x7b]\<rparr>;
          b = b\<lparr>elems := (elems b)[1 := 0x03]\<rparr>;
          b = b\<lparr>elems := (elems b)[2 := 0x40]\<rparr>;
          b = b\<lparr>elems := (elems b)[3 := 0x7d]\<rparr>
      in b)"

subsection \<open>The device, the HID library and the process-wide lock\<close>

text \<open>
  The values of Go's \<^verbatim>\<open>error\<close> interface that the library returns are opaque to
  the package; \<open>None\<close> is the nil error.
\<close>

datatype error = Error string

text \<open>
  An opened \<^verbatim>\<open>*hid.Device\<close>, given by what its three methods return in this call:
  \<^verbatim>\<open>Write(b)\<close> returns a count and an error, \<^verbatim>\<open>Read(b)\<close> copies \<open>read_data\<close> into
  \<open>b\<close> and returns a count and an error, \<^verbatim>\<open>Close()\<close> returns an error.
\<close>

record Device =
  dev_write :: "byte list \<Rightarrow> int \<times> error option"
  read_data :: "byte list"
  read_result :: "int \<times> error option"
  close_result :: "error option"

text \<open>
  \<^verbatim>\<open>DeviceInfo.Open()\<close> returns \<^verbatim>\<open>(*Device, error)\<close>: \<open>Inr d\<close> is a device and a nil
  error, \<open>Inl e\<close> a nil device and the error \<open>e\<close>.
\<close>

record DeviceInfo =
  open_result :: "error + Device"

text \<open>
  The result of a library call that may panic. What \<^verbatim>\<open>Close()\<close> does on a nil
  \<^verbatim>\<open>*hid.Device\<close> is decided inside the library: \<open>Close_nil\<close> is that result.
\<close>

datatype 'a call = Ret 'a | Panic panic

record hid =
  Close_nil :: "error option call"

definition Close :: "hid \<Rightarrow> Device option \<Rightarrow> error option call" where
  "Close lib device = (case device of None \<Rightarrow> Close_nil lib | Some d \<Rightarrow> Ret (close_result d))"

text \<open>
  The state a call runs in: \<open>usbLock\<close> says whether the package's mutex is held, and
  \<open>trace\<close> lists, oldest first, the lock operations, device calls and sleeps made so far.
\<close>

datatype event = EvLock | EvOpen | EvWrite "byte list" | EvSleep nat | EvRead | EvClose | EvUnlock

record state =
  usbLock :: bool
  trace :: "event list"

definition emit :: "event \<Rightarrow> state \<Rightarrow> state" where
  "emit ev s = s\<lparr>trace := trace s @ [ev]\<rparr>"

text \<open>
  How a call ends: it returns a value, it panics, the process exits
  (\<^verbatim>\<open>log.Fatalln\<close> calls \<^verbatim>\<open>os.Exit(1)\<close>, which runs no deferred function), or it
  waits for ever in \<^verbatim>\<open>usbLock.Lock()\<close> on a mutex that nothing releases.
\<close>

datatype 'a outcome = Returned 'a | Panicked panic | Exited | Blocked

definition Lock :: "state \<Rightarrow> state option" where
  "Lock s = (if usbLock s then None else Some (emit EvLock (s\<lparr>usbLock := True\<rparr>)))"

definition Unlock :: "state \<Rightarrow> state" where
  "Unlock s = emit EvUnlock (s\<lparr>usbLock := False\<rparr>)"

definition closeDevice :: "hid \<Rightarrow> Device option \<Rightarrow> state \<Rightarrow> unit outcome \<times> state" where
  "closeDevice lib device s =
     (let s = emit EvClose s in
      case Close lib device of
        Panic p \<Rightarrow> (Panicked p, s)
      | Ret None \<Rightarrow> (Returned (), s)
      | Ret (Some err) \<Rightarrow> (Exited, s))"

definition CheckDeviceWithoutQuery :: "hid \<Rightarrow> DeviceInfo list \<Rightarrow> state \<Rightarrow> bool outcome \<times> state" where
  "CheckDeviceWithoutQuery lib deviceInfo s =
     (case Lock s of
        None \<Rightarrow> (Blocked, s)
      | Some s \<Rightarrow>
          (case deviceInfo of
             [] \<Rightarrow> (Panicked IndexOutOfRange, s)
           | info # _ \<Rightarrow>
               (let s = emit EvOpen s;
                    (device, valid) =
                      (case open_result info of
                         Inl err \<Rightarrow> (None, False)
                       | Inr d \<Rightarrow> (Some d, True))
                in case closeDevice lib device s of
                     (Returned _, s) \<Rightarrow> (Returned valid, Unlock s)
                   | (Panicked p, s) \<Rightarrow> (Panicked p, s)
                   | (Exited, s) \<Rightarrow> (Exited, s)
                   | (Blocked, s) \<Rightarrow> (Blocked, s))))"

text \<open>\<^verbatim>\<open>device.Read(response)\<close> overwrites the front of the buffer; its length stays.\<close>

definition copy_into :: "byte_slice \<Rightarrow> byte list \<Rightarrow> byte_slice" where
  "copy_into b data =
     b\<lparr>elems := take (length (elems b)) data @ drop (length data) (elems b)\<rparr>"

text \<open>
  A nil slice of readings is the empty list. The part of \<^verbatim>\<open>QueryDeviceSensors\<close> after
  the two \<^verbatim>\<open>defer\<close> statements:
\<close>

type_synonym readings = "Sensor option list \<times> error option"

definition queryBody :: "Device \<Rightarrow> state \<Rightarrow> readings outcome \<times> state" where
  "queryBody device s =
     (let requestBytes = getTempRequestBytes;
          s = emit (EvWrite (elems requestBytes)) s;
          (writtenBytes, err) = dev_write device (elems requestBytes)
      in case err of
           Some e \<Rightarrow> (Returned ([], Some e), s)
         | None \<Rightarrow>
             (let s = emit (EvSleep 500) s;
                  response = make_bytes 64;
                  s = emit EvRead s;
                  response = copy_into response (read_data device);
                  (readBytes, err) = read_result device
              in case err of
                   Some e \<Rightarrow> (Returned ([], Some e), s)
                 | None \<Rightarrow>
                     (case getSensorDataFromBytes response of
                        Inl p \<Rightarrow> (Panicked p, s)
                      | Inr sensorData \<Rightarrow> (Returned (sensorData, None), s))))"

text \<open>
  The deferred calls run last-in first-out when the body returns or panics:
  \<^verbatim>\<open>closeDevice(device)\<close>, then \<^verbatim>\<open>usbLock.Unlock()\<close>. A fatal exit inside
  \<^verbatim>\<open>closeDevice\<close> ends the process before the unlock.
\<close>

definition runDeferred :: "hid \<Rightarrow> Device \<Rightarrow> readings outcome \<times> state \<Rightarrow> readings outcome \<times> state" where
  "runDeferred lib device r =
     (case r of (res, s) \<Rightarrow>
        (case closeDevice lib (Some device) s of
           (Returned _, s) \<Rightarrow> (res, Unlock s)
         | (Panicked p, s) \<Rightarrow> (Panicked p, Unlock s)
         | (Exited, s) \<Rightarrow> (Exited, s)
         | (Blocked, s) \<Rightarrow> (Blocked, s)))"

definition QueryDeviceSensors :: "hid \<Rightarrow> DeviceInfo list \<Rightarrow> state \<Rightarrow> readings outcome \<times> state" where
  "QueryDeviceSensors lib deviceInfo s =
     (case Lock s of
        None \<Rightarrow> (Blocked, s)
      | Some s \<Rightarrow>
          (case deviceInfo of
             [] \<Rightarrow> (Panicked IndexOutOfRange, s)
           | info # _ \<Rightarrow>
               (let s = emit EvOpen s in
                case open_result info of
                  Inl err \<Rightarrow> (Returned ([], Some err), s)
                | Inr device \<Rightarrow> runDeferred lib device (queryBody device s))))"

subsection \<open>The specification's reading of a temperature slot\<close>

text \<open>
  The specification's \<^verbatim>\<open>signed16BE(hi, lo)\<close>: the two bytes read as one big-endian
  16-bit number, values from \<open>32768\<close> on standing for the negative numbers.
\<close>

definition signed16BE :: "byte \<Rightarrow> byte \<Rightarrow> int" where
  "signed16BE hi lo =
     (let u = 256 * uint hi + uint lo in if u < 32768 then u else u - 65536)"

section \<open>Properties of the decoder\<close>

subsection \<open>The big-endian signed value\<close>

lemma uint_byte_lt: "uint (b::byte) < 256"
  using uint_lt2p [of b] by simp

lemma or_push_bit_8:
  "uint (lo::byte) OR push_bit 8 (uint (hi::byte)) = uint lo + push_bit 8 (uint hi)"
proof (rule disjunctive_add [symmetric])
  fix n
  show "\<not> bit (uint lo) n \<or> \<not> bit (push_bit 8 (uint hi)) n"
  proof (cases "n < 8")
    case True
    then show ?thesis by (simp add: bit_push_bit_iff)
  next
    case False
    then have "\<not> bit lo n" by (auto dest: bit_imp_le_length)
    then show ?thesis by (simp add: bit_uint_iff)
  qed
qed

lemma be16_uint:
  "uint ((ucast (lo::byte) OR push_bit 8 (ucast (hi::byte))) :: 16 word) = 256 * uint hi + uint lo"
proof -
  have lo: "uint (ucast lo :: 16 word) = uint lo"
    by (simp add: uint_up_ucast is_up)
  have hi: "uint (ucast hi :: 16 word) = uint hi"
    by (simp add: uint_up_ucast is_up)
  have "push_bit 8 (uint hi) < 2 ^ 16"
    using uint_byte_lt [of hi] by (simp add: push_bit_eq_mult)
  moreover have "0 \<le> push_bit 8 (uint hi)"
    by (simp add: push_bit_eq_mult)
  ultimately have "take_bit 16 (push_bit 8 (uint hi)) = push_bit 8 (uint hi)"
    by (simp add: take_bit_int_eq_self)
  then have ph: "uint (push_bit 8 (ucast hi :: 16 word)) = push_bit 8 (uint hi)"
    by (simp add: unsigned_push_bit_eq hi)
  have "uint ((ucast lo OR push_bit 8 (ucast hi)) :: 16 word) = uint lo OR push_bit 8 (uint hi)"
    by (simp add: unsigned_or_eq lo ph)
  then show ?thesis
    using or_push_bit_8 [of lo hi] by (simp add: push_bit_eq_mult)
qed

lemma sint16: "sint (w :: 16 word) = (if uint w < 32768 then uint w else uint w - 65536)"
proof -
  have lt: "uint w < 65536"
    using uint_lt2p [of w] by simp
  have ge: "0 \<le> uint w"
    by simp
  have s: "sint w = (uint w + 32768) mod 65536 - 32768"
    by (simp add: sint_uint signed_take_bit_eq_take_bit_shift take_bit_eq_mod)
  show ?thesis
  proof (cases "uint w < 32768")
    case True
    then have "(uint w + 32768) mod 65536 = uint w + 32768"
      using ge by (intro mod_pos_pos_trivial) simp_all
    with True s show ?thesis by simp
  next
    case False
    have "uint w + 32768 = uint w - 32768 + 65536"
      by arith
    then have "(uint w + 32768) mod 65536 = (uint w - 32768 + 65536) mod 65536"
      by (rule arg_cong)
    also have "\<dots> = (uint w - 32768) mod 65536"
      by (rule mod_add_self2)
    also have "\<dots> = uint w - 32768"
      using False lt by (intro mod_pos_pos_trivial) simp_all
    finally show ?thesis
      using False s by simp
  qed
qed

lemma sint_be16:
  "sint ((ucast (lo::byte) OR push_bit 8 (ucast (hi::byte))) :: 16 word) = signed16BE hi lo"
  by (simp add: sint16 be16_uint signed16BE_def Let_def)

subsection \<open>One channel, and the loop over the seven channels\<close>

lemma reslice_elems:
  "lo \<le> hi \<Longrightarrow> hi \<le> length (elems r) \<Longrightarrow>
   reslice r lo hi = Inr \<lparr>elems = take (hi - lo) (drop lo (elems r)), spare = drop hi (elems r) @ spare r\<rparr>"
  by (simp add: reslice_def)

lemma BigEndian_Uint16_reslice:
  assumes "lo + 2 \<le> length (elems r)"
  shows "\<exists>b. reslice r lo (lo + 2) = Inr b \<and>
             BigEndian_Uint16 b = Inr (ucast (elems r ! (lo + 1)) OR push_bit 8 (ucast (elems r ! lo)))"
  using assms by (simp add: reslice_elems BigEndian_Uint16_def index_def)

lemma channelSensor_present:
  assumes len: "3 + 3 * c < length (elems r)" and first: "elems r ! (1 + 3 * c) \<noteq> 0x7f"
  shows "channelSensor r c = Inr \<lparr>Channel = int c,
     Temperature = f32_div (f32_of_int (signed16BE (elems r ! (1 + 3 * c)) (elems r ! (2 + 3 * c)))) 10,
     Humidity = elems r ! (3 + 3 * c), Absent = False\<rparr>"
proof -
  have e1: "1 + c * 3 = 1 + 3 * c" and e2: "1 + 3 * c + 1 = 2 + 3 * c"
    and e3: "1 + 3 * c + 2 = 3 + 3 * c"
    by simp_all
  have i1: "index r (1 + 3 * c) = Inr (elems r ! (1 + 3 * c))"
    using len by (simp add: index_def)
  have i3: "index r (3 + 3 * c) = Inr (elems r ! (3 + 3 * c))"
    using len by (simp add: index_def)
  from len have "1 + 3 * c + 2 \<le> length (elems r)" by simp
  from BigEndian_Uint16_reslice [OF this]
  obtain b where b: "reslice r (1 + 3 * c) (3 + 3 * c) = Inr b"
    "BigEndian_Uint16 b = Inr (ucast (elems r ! (2 + 3 * c)) OR push_bit 8 (ucast (elems r ! (1 + 3 * c))))"
    unfolding e2 e3 by blast
  show ?thesis
    unfolding channelSensor_def Let_def e1 e3
    using first by (simp only: i1 i3 b sum.case sint_be16 not_False_eq_True if_True)
qed

lemma channelSensor_absent:
  assumes "1 + 3 * c < length (elems r)" "elems r ! (1 + 3 * c) = 0x7f"
  shows "channelSensor r c = Inr \<lparr>Channel = int c, Temperature = 0, Humidity = 0, Absent = True\<rparr>"
  using assms
  by (simp add: channelSensor_def index_def Let_def mult.commute)

lemma sensorLoop_result:
  "\<forall>k<7. channelSensor r k = Inr (f k) \<Longrightarrow> length sensors = 7 \<Longrightarrow>
   \<exists>out. sensorLoop r c sensors = Inr out \<and> length out = 7 \<and>
         (\<forall>i<7. out ! i = (if c \<le> i then Some (f i) else sensors ! i))"
proof (induction r c sensors rule: sensorLoop.induct)
  case (1 response c sensors)
  show ?case
  proof (cases "c < 7")
    case True
    have cs: "channelSensor response c = Inr (f c)"
      using "1.prems"(1) True by simp
    have "length (sensors[c := Some (f c)]) = 7"
      using "1.prems"(2) by simp
    from "1.IH" [OF True cs "1.prems"(1) this]
    obtain out where out: "sensorLoop response (c + 1) (sensors[c := Some (f c)]) = Inr out"
      "length out = 7"
      "\<forall>i<7. out ! i = (if c + 1 \<le> i then Some (f i) else sensors[c := Some (f c)] ! i)"
      by blast
    have "sensorLoop response c sensors = Inr out"
      using True cs out(1) by (subst sensorLoop.simps) simp
    moreover have "\<forall>i<7. out ! i = (if c \<le> i then Some (f i) else sensors ! i)"
    proof (intro allI impI)
      fix i :: nat
      assume "i < 7"
      then show "out ! i = (if c \<le> i then Some (f i) else sensors ! i)"
        using out(3) "1.prems"(2) True by (cases "i = c") auto
    qed
    ultimately show ?thesis
      using out(2) by blast
  next
    case False
    then show ?thesis
      using "1.prems"(2) by (subst sensorLoop.simps) simp
  qed
qed

lemma channelSensor_total:
  assumes "3 + 3 * c < length (elems r)"
  shows "\<exists>s. channelSensor r c = Inr s"
proof (cases "elems r ! (1 + 3 * c) = 0x7f")
  case True
  with assms show ?thesis by (simp add: channelSensor_absent)
next
  case False
  with assms show ?thesis by (simp add: channelSensor_present)
qed

lemma getSensorDataFromBytes_result:
  assumes len: "22 \<le> length (elems r)"
  shows "\<exists>out. getSensorDataFromBytes r = Inr out \<and> length out = 7 \<and>
           (\<forall>i<7. \<exists>s. out ! i = Some s \<and> channelSensor r i = Inr s)"
proof -
  define f where "f k = projr (channelSensor r k)" for k
  have f: "\<forall>k<7. channelSensor r k = Inr (f k)"
  proof (intro allI impI)
    fix k :: nat
    assume "k < 7"
    with len have "3 + 3 * k < length (elems r)" by simp
    from channelSensor_total [OF this] show "channelSensor r k = Inr (f k)"
      by (auto simp: f_def)
  qed
  from sensorLoop_result [OF f, of "replicate 7 None" 0]
  obtain out where out: "sensorLoop r 0 (replicate 7 None) = Inr out" "length out = 7"
    "\<forall>i<7. out ! i = Some (f i)"
    by auto
  then show ?thesis
    using f by (auto simp: getSensorDataFromBytes_def)
qed

section \<open>What the decoder returns\<close>

text \<open>
  C2. For every 64-byte response, \<^verbatim>\<open>getSensorDataFromBytes\<close> returns exactly seven
  readings, none of them a nil pointer, and the reading at position \<open>c\<close> has
  \<open>Channel = c\<close>: the channels come out in ascending order \<open>0, \<dots>, 6\<close>, whatever
  number of channels is absent.
\<close>

theorem C2_seven_readings_in_channel_order:
  assumes "length (elems response) = 64"
  shows "\<exists>sensors. getSensorDataFromBytes response = Inr sensors \<and> length sensors = 7 \<and>
           (\<forall>c<7. \<exists>s. sensors ! c = Some s \<and> Channel s = int c) \<and>
           map (map_option Channel) sensors = [Some 0, Some 1, Some 2, Some 3, Some 4, Some 5, Some 6]"
proof -
  from assms have "22 \<le> length (elems response)" by simp
  from getSensorDataFromBytes_result [OF this]
  obtain out where out: "getSensorDataFromBytes response = Inr out" "length out = 7"
    "\<forall>i<7. \<exists>s. out ! i = Some s \<and> channelSensor response i = Inr s"
    by blast
  have ch: "\<exists>s. out ! c = Some s \<and> Channel s = int c" if "c < 7" for c
  proof -
    from out(3) that obtain s where s: "out ! c = Some s" "channelSensor response c = Inr s"
      by blast
    from that assms have l: "3 + 3 * c < length (elems response)" by simp
    have "Channel s = int c"
    proof (cases "elems response ! (1 + 3 * c) = 0x7f")
      case True
      from l have "1 + 3 * c < length (elems response)" by simp
      from channelSensor_absent [OF this True] s(2) show ?thesis by auto
    next
      case False
      from channelSensor_present [OF l False] s(2) show ?thesis by auto
    qed
    with s(1) show ?thesis by simp
  qed
  have "map (map_option Channel) out = map (\<lambda>c. Some (int c)) [0..<7]"
  proof (rule nth_equalityI)
    show "length (map (map_option Channel) out) = length (map (\<lambda>c. Some (int c)) [0..<7])"
      using out(2) by simp
  next
    fix i
    assume "i < length (map (map_option Channel) out)"
    then have i: "i < 7" using out(2) by simp
    from ch [OF i] obtain s where "out ! i = Some s" "Channel s = int i" by blast
    with i out(2) show "map (map_option Channel) out ! i = map (\<lambda>c. Some (int c)) [0..<7] ! i"
      by (simp del: upt_Suc)
  qed
  also have "map (\<lambda>c. Some (int c)) [0..<7] = [Some 0, Some 1, Some 2, Some 3, Some 4, Some 5, Some 6]"
    by (simp add: upt_rec)
  finally have m: "map (map_option Channel) out =
      [Some 0, Some 1, Some 2, Some 3, Some 4, Some 5, Some 6]" .
  have "\<forall>c<7. \<exists>s. out ! c = Some s \<and> Channel s = int c"
    using ch by blast
  with out(1,2) m show ?thesis
    by (intro exI [of _ out] conjI)
qed

theorem C2_witness:
  "length (elems \<lparr>elems = replicate 64 0x7f, spare = []\<rparr>) = 64 \<and>
   (\<exists>sensors. getSensorDataFromBytes \<lparr>elems = replicate 64 0x7f, spare = []\<rparr> = Inr sensors \<and>
      length sensors = 7 \<and>
      (\<forall>c<7. \<exists>s. sensors ! c = Some s \<and> Channel s = int c) \<and>
      map (map_option Channel) sensors = [Some 0, Some 1, Some 2, Some 3, Some 4, Some 5, Some 6])"
  using C2_seven_readings_in_channel_order [of "\<lparr>elems = replicate 64 0x7f, spare = []\<rparr>"]
  by simp

text \<open>
  C3. For a 64-byte response and a channel \<open>c < 7\<close>: if the byte at offset \<open>1 + 3c\<close> is
  \<open>0x7F\<close>, the reading for \<open>c\<close> is absent, with its channel set and temperature and
  humidity at zero; the other two bytes of the slot are not constrained.
\<close>

theorem C3_absent_channel:
  assumes "length (elems response) = 64" and "c < 7"
    and "elems response ! (1 + 3 * c) = 0x7f"
  shows "\<exists>sensors. getSensorDataFromBytes response = Inr sensors \<and>
           sensors ! c = Some \<lparr>Channel = int c, Temperature = 0, Humidity = 0, Absent = True\<rparr>"
proof -
  from assms(1) have "22 \<le> length (elems response)" by simp
  from getSensorDataFromBytes_result [OF this] assms(2)
  obtain out s where out: "getSensorDataFromBytes response = Inr out"
    "out ! c = Some s" "channelSensor response c = Inr s"
    by blast
  from assms(1,2) have "1 + 3 * c < length (elems response)" by simp
  from channelSensor_absent [OF this assms(3)] out show ?thesis by auto
qed

theorem C3_witness:
  "length (elems \<lparr>elems = [0, 0, 0, 0, 0x7f, 0x12, 0x34] @ replicate 57 0, spare = []\<rparr>) = 64 \<and>
   (1::nat) < 7 \<and>
   elems \<lparr>elems = [0, 0, 0, 0, 0x7f, 0x12, 0x34] @ replicate 57 0, spare = []\<rparr> ! (1 + 3 * 1) = 0x7f \<and>
   (\<exists>sensors.
      getSensorDataFromBytes \<lparr>elems = [0, 0, 0, 0, 0x7f, 0x12, 0x34] @ replicate 57 0, spare = []\<rparr>
        = Inr sensors \<and>
      sensors ! 1 = Some \<lparr>Channel = 1, Temperature = 0, Humidity = 0, Absent = True\<rparr>)"
  using C3_absent_channel
    [of "\<lparr>elems = [0, 0, 0, 0, 0x7f, 0x12, 0x34] @ replicate 57 0, spare = []\<rparr>" 1]
  by simp

subsection \<open>The float32 quotient by ten\<close>

lemma round_ne_error: "\<bar>of_int (round_ne y) - y\<bar> \<le> 1 / 2"
proof -
  have "of_int \<lfloor>y\<rfloor> \<le> y" "y < of_int \<lfloor>y\<rfloor> + 1" by linarith+
  then show ?thesis
    by (auto simp: round_ne_def Let_def abs_le_iff)
qed

lemma ilog2_lower:
  assumes "0 < x"
  shows "2 powi (ilog2 x) \<le> x"
proof -
  obtain p q where pq: "quotient_of x = (p, q)" by (cases "quotient_of x")
  then have q: "0 < q" and x: "x = of_int p / of_int q"
    by (auto dest: quotient_of_denom_pos quotient_of_div)
  with assms have p: "0 < p" by (simp add: zero_less_divide_iff)
  define bp bq where "bp = floorlog 2 (nat p)" and "bq = floorlog 2 (nat q)"
  define k where "k = int bp - int bq"
  have il: "ilog2 x = (if 2 powi k \<le> x then k else k - 1)"
    by (simp add: ilog2_def pq k_def bp_def bq_def Let_def)
  show ?thesis
  proof (cases "2 powi k \<le> x")
    case True
    then show ?thesis by (simp add: il)
  next
    case False
    have "2 ^ (bp - 1) \<le> nat p" "nat q < 2 ^ bq"
      using floorlog_bounds [of "nat p" 2] floorlog_bounds [of "nat q" 2] p q
      by (simp_all add: bp_def bq_def)
    then have "(of_nat (2 ^ (bp - 1)) :: rat) \<le> of_nat (nat p)"
      and "(of_nat (nat q) :: rat) \<le> of_nat (2 ^ bq)"
      by (simp_all only: of_nat_le_iff less_imp_le)
    then have P: "(2::rat) ^ (bp - 1) \<le> of_int p" and Q: "of_int q \<le> (2::rat) ^ bq"
      using p q by simp_all
    have bp: "0 < bp"
      using p floorlog_eq_zero_iff [of 2 "nat p"] by (simp add: bp_def)
    then have "k - 1 = int (bp - 1) - int bq"
      by (simp add: k_def)
    then have "(2::rat) powi (k - 1) = 2 powi int (bp - 1) / 2 powi int bq"
      by (simp add: power_int_diff)
    also have "\<dots> = 2 ^ (bp - 1) / 2 ^ bq"
      by (simp only: power_int_of_nat)
    also have "\<dots> \<le> of_int p / of_int q"
      using P Q q p by (intro frac_le) simp_all
    finally have "2 powi (k - 1) \<le> x"
      unfolding x .
    with False show ?thesis
      by (simp add: il)
  qed
qed


lemma ilog2_less:
  assumes "0 < x" and "x < 2 powi m"
  shows "ilog2 x < m"
proof (rule ccontr)
  assume "\<not> ilog2 x < m"
  then have "(2::rat) powi m \<le> 2 powi (ilog2 x)"
    by (intro power_int_increasing) simp_all
  with ilog2_lower [OF assms(1)] assms(2) show False by simp
qed

lemma f32_round_error:
  assumes "\<bar>x\<bar> < 2 powi m"
  shows "\<bar>f32_round x - x\<bar> \<le> 2 powi (m - 25)"
proof (cases "x = 0")
  case True
  then show ?thesis by (simp add: f32_round_def)
next
  case False
  define e where "e = ilog2 \<bar>x\<bar> - 23"
  define s :: rat where "s = 2 powi e"
  have s: "0 < s" by (simp add: s_def zero_less_power_int)
  from False assms have "ilog2 \<bar>x\<bar> < m" by (intro ilog2_less) simp_all
  then have "e \<le> m - 24" by (simp add: e_def)
  then have "s \<le> 2 powi (m - 24)"
    unfolding s_def by (intro power_int_increasing) simp_all
  also have "(2::rat) powi (m - 24) = 2 * 2 powi (m - 25)"
    using power_int_add_1' [of "2::rat" "m - 25"] by simp
  finally have sb: "s / 2 \<le> 2 powi (m - 25)" by simp
  have "f32_round x - x = s * (of_int (round_ne (x / s)) - x / s)"
    using False s by (simp add: f32_round_def e_def s_def Let_def algebra_simps)
  then have "\<bar>f32_round x - x\<bar> = s * \<bar>of_int (round_ne (x / s)) - x / s\<bar>"
    using s by (simp add: abs_mult)
  also have "\<dots> \<le> s * (1 / 2)"
    using s round_ne_error [of "x / s"] by (intro mult_left_mono) simp_all
  finally show ?thesis using sb by simp
qed

lemma f32_div_int16_error:
  assumes "- 32768 \<le> n" "n \<le> 32767"
  shows "\<bar>f32_div (f32_of_int n) 10 - of_int n / 10\<bar> \<le> 1 / 8192"
proof -
  have "\<bar>(of_int n :: rat) / 10\<bar> < 2 powi 12"
    using assms by (simp add: abs_less_iff)
  from f32_round_error [OF this] show ?thesis
    by (simp add: f32_div_def f32_of_int_def)
qed


lemma signed16BE_range: "- 32768 \<le> signed16BE hi lo \<and> signed16BE hi lo \<le> 32767"
proof -
  have "0 \<le> uint hi" "0 \<le> uint lo" "uint hi < 256" "uint lo < 256"
    using uint_byte_lt [of hi] uint_byte_lt [of lo] by simp_all
  then show ?thesis
    unfolding signed16BE_def Let_def
    by (split if_split) (intro conjI impI; linarith)
qed

lemma f32_minus_five: "f32_div (f32_of_int (signed16BE 0xFF 0xCE)) 10 = - 5"
proof -
  have "signed16BE 0xFF 0xCE = - 50"
    by (simp add: signed16BE_def)
  moreover have "f32_div (f32_of_int (- 50)) 10 = - 5"
    by code_simp
  ultimately show ?thesis by simp
qed

text \<open>
  C4. For a 64-byte response and a channel \<open>c < 7\<close>: if the byte at offset \<open>1 + 3c\<close> is
  not \<open>0x7F\<close>, the reading for \<open>c\<close> is present; its temperature is the float32 quotient
  by 10 of the signed big-endian 16-bit number made of the bytes at offsets \<open>1 + 3c\<close> and
  \<open>2 + 3c\<close>, which lies within \<open>1/8192\<close> of the exact quotient; its humidity is the byte
  at offset \<open>3 + 3c\<close>, whatever its value. The bytes \<open>FF CE\<close> are the number \<open>-50\<close> and
  give the temperature \<open>-5\<close>.
\<close>

theorem C4_present_channel:
  assumes "length (elems response) = 64" and "c < 7"
    and "elems response ! (1 + 3 * c) \<noteq> 0x7f"
  shows "\<exists>sensors s. getSensorDataFromBytes response = Inr sensors \<and> sensors ! c = Some s \<and>
           Channel s = int c \<and> \<not> Absent s \<and>
           Temperature s = f32_div (f32_of_int
             (signed16BE (elems response ! (1 + 3 * c)) (elems response ! (2 + 3 * c)))) 10 \<and>
           \<bar>Temperature s
              - of_int (signed16BE (elems response ! (1 + 3 * c)) (elems response ! (2 + 3 * c))) / 10\<bar>
             \<le> 1 / 8192 \<and>
           Humidity s = elems response ! (3 + 3 * c) \<and>
           signed16BE 0xFF 0xCE = - 50 \<and>
           f32_div (f32_of_int (signed16BE 0xFF 0xCE)) 10 = - 5"
proof -
  from assms(1) have "22 \<le> length (elems response)" by simp
  from getSensorDataFromBytes_result [OF this] assms(2)
  obtain out s where out: "getSensorDataFromBytes response = Inr out"
    "out ! c = Some s" "channelSensor response c = Inr s"
    by blast
  define raw where
    "raw = signed16BE (elems response ! (1 + 3 * c)) (elems response ! (2 + 3 * c))"
  from assms(1,2) have "3 + 3 * c < length (elems response)" by simp
  from channelSensor_present [OF this assms(3)] out(3)
  have s: "s = \<lparr>Channel = int c, Temperature = f32_div (f32_of_int raw) 10,
                 Humidity = elems response ! (3 + 3 * c), Absent = False\<rparr>"
    by (simp add: raw_def)
  have "- 32768 \<le> raw" "raw \<le> 32767"
    using signed16BE_range by (simp_all add: raw_def)
  then have err: "\<bar>f32_div (f32_of_int raw) 10 - of_int raw / 10\<bar> \<le> 1 / 8192"
    by (rule f32_div_int16_error)
  have m50: "signed16BE 0xFF 0xCE = - 50"
    by (simp add: signed16BE_def)
  show ?thesis
    using out(1,2) err m50 f32_minus_five unfolding raw_def [symmetric]
    by (intro exI [of _ out] exI [of _ s]) (simp add: s)
qed

theorem C4_witness:
  "length (elems \<lparr>elems = [0, 0xFF, 0xCE, 0x2D] @ replicate 60 0, spare = []\<rparr>) = 64 \<and>
   (0::nat) < 7 \<and>
   elems \<lparr>elems = [0, 0xFF, 0xCE, 0x2D] @ replicate 60 0, spare = []\<rparr> ! (1 + 3 * 0) \<noteq> 0x7f \<and>
   (\<exists>sensors s.
      getSensorDataFromBytes \<lparr>elems = [0, 0xFF, 0xCE, 0x2D] @ replicate 60 0, spare = []\<rparr>
        = Inr sensors \<and>
      sensors ! 0 = Some s \<and> Channel s = 0 \<and> \<not> Absent s \<and>
      Temperature s = - 5 \<and> Humidity s = 0x2D)"
  using C4_present_channel
    [of "\<lparr>elems = [0, 0xFF, 0xCE, 0x2D] @ replicate 60 0, spare = []\<rparr>" 0]
  by fastforce

subsection \<open>Which bytes the decoder reads\<close>

lemma nth_slot:
  assumes "take 21 (drop 1 xs) = take 21 (drop 1 ys)" "22 \<le> length xs" "22 \<le> length ys"
    "1 \<le> i" "i \<le> 21"
  shows "xs ! i = ys ! i"
proof -
  from assms(4) obtain j where i: "i = Suc j" by (cases i) auto
  with assms(5) have j: "j < 21" by simp
  have "xs ! i = take 21 (drop 1 xs) ! j"
    using j assms(2) by (simp add: i)
  also have "\<dots> = take 21 (drop 1 ys) ! j"
    by (simp only: assms(1))
  also have "\<dots> = ys ! i"
    using j assms(3) by (simp add: i)
  finally show ?thesis .
qed

lemma channelSensor_depends_on_slot:
  assumes "take 21 (drop 1 (elems r')) = take 21 (drop 1 (elems r))"
    "22 \<le> length (elems r')" "22 \<le> length (elems r)" "c < 7"
  shows "channelSensor r' c = channelSensor r c"
proof -
  have e1: "elems r' ! (1 + 3 * c) = elems r ! (1 + 3 * c)"
    and e2: "elems r' ! (2 + 3 * c) = elems r ! (2 + 3 * c)"
    and e3: "elems r' ! (3 + 3 * c) = elems r ! (3 + 3 * c)"
    using assms(4) by (auto intro!: nth_slot [OF assms(1-3)])
  from assms have l: "3 + 3 * c < length (elems r)" "3 + 3 * c < length (elems r')"
    by simp_all
  then have l1: "1 + 3 * c < length (elems r)" "1 + 3 * c < length (elems r')"
    by simp_all
  show ?thesis
  proof (cases "elems r ! (1 + 3 * c) = 0x7f")
    case True
    then show ?thesis
      using channelSensor_absent [OF l1(1)] channelSensor_absent [OF l1(2)] e1 by simp
  next
    case False
    then show ?thesis
      using channelSensor_present [OF l(1)] channelSensor_present [OF l(2)] e1 e2 e3 by simp
  qed
qed

lemma getSensorDataFromBytes_depends_on_slots:
  assumes "take 21 (drop 1 (elems r')) = take 21 (drop 1 (elems r))"
    "22 \<le> length (elems r')" "22 \<le> length (elems r)"
  shows "getSensorDataFromBytes r' = getSensorDataFromBytes r"
proof -
  from getSensorDataFromBytes_result [OF assms(3)]
  obtain out where out: "getSensorDataFromBytes r = Inr out" "length out = 7"
    "\<forall>i<7. \<exists>s. out ! i = Some s \<and> channelSensor r i = Inr s"
    by blast
  from getSensorDataFromBytes_result [OF assms(2)]
  obtain out' where out': "getSensorDataFromBytes r' = Inr out'" "length out' = 7"
    "\<forall>i<7. \<exists>s. out' ! i = Some s \<and> channelSensor r' i = Inr s"
    by blast
  have "out' = out"
  proof (rule nth_equalityI)
    show "length out' = length out"
      using out(2) out'(2) by simp
  next
    fix i
    assume "i < length out'"
    then have i: "i < 7" using out'(2) by simp
    from out(3) i obtain s where s: "out ! i = Some s" "channelSensor r i = Inr s"
      by blast
    from out'(3) i obtain s' where s': "out' ! i = Some s'" "channelSensor r' i = Inr s'"
      by blast
    from channelSensor_depends_on_slot [OF assms i] s(2) s'(2) have "s' = s"
      by simp
    with s(1) s'(1) show "out' ! i = out ! i" by simp
  qed
  with out(1) out'(1) show ?thesis by simp
qed

lemma short_buffer_panics: "getSensorDataFromBytes (make_bytes 21) = Inl IndexOutOfRange"
  by code_simp

text \<open>
  C9. The decoder has no length check. On a buffer of at least 22 bytes every index and
  slice expression is in range, so it returns readings and never panics; what it returns
  is fixed by the bytes at offsets 1 to 21 alone: two such buffers that agree there decode
  alike, whatever their byte 0, their bytes from offset 22 on, their lengths and their
  capacities. A zero buffer of 21 bytes makes it panic with an index out of range.
\<close>

theorem C9_decoding_total_on_22_bytes:
  assumes "22 \<le> length (elems response)"
  shows "(\<exists>sensors. getSensorDataFromBytes response = Inr sensors) \<and>
         (22 \<le> length (elems response') \<and>
          take 21 (drop 1 (elems response')) = take 21 (drop 1 (elems response))
          \<longrightarrow> getSensorDataFromBytes response' = getSensorDataFromBytes response) \<and>
         getSensorDataFromBytes (make_bytes 21) = Inl IndexOutOfRange"
proof (intro conjI impI)
  from getSensorDataFromBytes_result [OF assms]
  show "\<exists>sensors. getSensorDataFromBytes response = Inr sensors"
    by blast
next
  assume "22 \<le> length (elems response') \<and>
    take 21 (drop 1 (elems response')) = take 21 (drop 1 (elems response))"
  then show "getSensorDataFromBytes response' = getSensorDataFromBytes response"
    using assms by (intro getSensorDataFromBytes_depends_on_slots) simp_all
next
  show "getSensorDataFromBytes (make_bytes 21) = Inl IndexOutOfRange"
    by (rule short_buffer_panics)
qed

theorem C9_witness:
  "22 \<le> length (elems \<lparr>elems = 0 # replicate 21 0x7f, spare = []\<rparr>) \<and>
   22 \<le> length (elems \<lparr>elems = 9 # replicate 21 0x7f @ [1, 2, 3], spare = [4]\<rparr>) \<and>
   take 21 (drop 1 (elems \<lparr>elems = 9 # replicate 21 0x7f @ [1, 2, 3], spare = [4]\<rparr>))
     = take 21 (drop 1 (elems \<lparr>elems = 0 # replicate 21 0x7f, spare = []\<rparr>)) \<and>
   (\<exists>sensors. getSensorDataFromBytes \<lparr>elems = 0 # replicate 21 0x7f, spare = []\<rparr> = Inr sensors) \<and>
   getSensorDataFromBytes \<lparr>elems = 9 # replicate 21 0x7f @ [1, 2, 3], spare = [4]\<rparr>
     = getSensorDataFromBytes \<lparr>elems = 0 # replicate 21 0x7f, spare = []\<rparr>"
  using C9_decoding_total_on_22_bytes
    [of "\<lparr>elems = 0 # replicate 21 0x7f, spare = []\<rparr>"
        "\<lparr>elems = 9 # replicate 21 0x7f @ [1, 2, 3], spare = [4]\<rparr>"]
  by simp

section \<open>The request frame\<close>

lemma replicate_64_split: "replicate 64 (0::byte) = [0, 0, 0, 0] @ replicate 60 0"
proof -
  have "replicate 64 (0::byte) = replicate (4 + 60) 0"
    by simp
  also have "\<dots> = replicate 4 0 @ replicate 60 0"
    by (simp only: replicate_add)
  also have "replicate 4 (0::byte) = [0, 0, 0, 0]"
    by (simp add: numeral_eq_Suc)
  finally show ?thesis .
qed

lemma elems_getTempRequestBytes:
  "elems getTempRequestBytes = [0x7b, 0x03, 0x40, 0x7d] @ replicate 60 0"
  unfolding getTempRequestBytes_def make_bytes_def Let_def
  by (simp add: replicate_64_split numeral_2_eq_2 numeral_3_eq_3)

text \<open>
  C5. The request frame is 64 bytes long: the marker \<open>7B 03 40 7D\<close> followed by 60 zero
  bytes. \<^verbatim>\<open>getTempRequestBytes\<close> takes no argument, so it is this one frame at every
  call.
\<close>

theorem C5_request_frame:
  "elems getTempRequestBytes = [0x7b, 0x03, 0x40, 0x7d] @ replicate 60 0
   \<and> spare getTempRequestBytes = []
   \<and> length (elems getTempRequestBytes) = 64"
  unfolding elems_getTempRequestBytes
  by (simp add: getTempRequestBytes_def make_bytes_def Let_def)

end
